theory Spec2Isabelle
  imports Main "HOL-Library.Word"
begin

section \<open>The Kodi build packager (MMcreateNewBuild.py)\<close>

text \<open>
  The script walks a Kodi folder, keeps the files below \<open>userdata\<close> and \<open>addons\<close> that
  match no exclusion pattern, can be stat-ed and are not larger than \<open>--skip-large\<close>,
  and writes them to a zip file, or only lists them with \<open>--dry-run\<close>.
  The embedding follows \<open>should_exclude\<close> and \<open>make_build\<close> statement by statement. The
  file system, the host's \<open>os.path.normcase\<close> and the outcome of each archive write, of
  each \<open>print\<close> in the \<open>try\<close> statement, of \<open>close\<close> and of \<open>unlink\<close> are inputs of the
  model (the record \<open>env\<close>); standard output, the archive and the way the call ends are
  its result (the record \<open>run\<close>).
\<close>

subsection \<open>Shell-style matching: \<open>fnmatch.fnmatch\<close>\<close>

text \<open>
  \<open>fnmatch.fnmatchcase(name, pat)\<close> of the Python library: the whole of \<open>name\<close> has to
  match \<open>pat\<close>, where \<open>*\<close> stands for any run of characters (a \<open>/\<close> included) and
  \<open>?\<close> for any one character; every other character stands for itself. Bracket
  expressions are left out: no pattern of \<open>EXCLUDE_PATTERNS\<close> has a \<open>[\<close>
  (lemma \<open>EXCLUDE_PATTERNS_no_bracket\<close>).
\<close>

fun fnmatchcase :: "string \<Rightarrow> string \<Rightarrow> bool" where
  "fnmatchcase [] [] = True"
| "fnmatchcase (c # cs) [] = False"
| "fnmatchcase [] (p # ps) = (p = CHR ''*'' \<and> fnmatchcase [] ps)"
| "fnmatchcase (c # cs) (p # ps) =
     (if p = CHR ''*'' then fnmatchcase (c # cs) ps \<or> fnmatchcase cs (p # ps)
      else (p = CHR ''?'' \<or> p = c) \<and> fnmatchcase cs ps)"

text \<open>
  \<open>fnmatch.fnmatch\<close> first sends the name and the pattern through the host's
  \<open>os.path.normcase\<close>: the identity on POSIX, lower case with a backslash for each \<open>/\<close> on Windows.
  The function is a parameter of the model.
\<close>

definition fnmatch :: "(string \<Rightarrow> string) \<Rightarrow> string \<Rightarrow> string \<Rightarrow> bool" where
  "fnmatch normcase name pat = fnmatchcase (normcase name) (normcase pat)"

definition EXCLUDE_PATTERNS :: "string list" where
  "EXCLUDE_PATTERNS =
     [''addons/packages/*'',
      ''userdata/Thumbnails/*'',
      ''userdata/Database/Textures13.db'',
      ''temp/*'',
      ''cache/*'',
      ''logs/*'',
      ''*.log'',
      ''*.cache'',
      ''kodi.old.log'']"

text \<open>The \<open>for pattern in ...\<close> loop of \<open>should_exclude\<close>, with its early \<open>return True\<close>.\<close>

fun any_pattern :: "(string \<Rightarrow> string) \<Rightarrow> string \<Rightarrow> string list \<Rightarrow> bool" where
  "any_pattern normcase rel_posix [] = False"
| "any_pattern normcase rel_posix (pattern # patterns) =
     (if fnmatch normcase rel_posix pattern then True
      else any_pattern normcase rel_posix patterns)"

definition should_exclude :: "(string \<Rightarrow> string) \<Rightarrow> string \<Rightarrow> bool" where
  "should_exclude normcase rel_posix = any_pattern normcase rel_posix EXCLUDE_PATTERNS"

subsection \<open>The file system and \<open>os.walk\<close>\<close>

text \<open>
  A directory entry is a file or a directory, with its name. For a file the model keeps
  the outcome of \<open>file_path.stat()\<close>: \<open>Some\<close> of \<open>st_size\<close>, a 64-bit file offset, or
  \<open>None\<close> when the call raises \<open>OSError\<close> (no permission, a broken symbolic link). A
  directory has the entries
  that \<open>os.walk\<close> finds in it, in listing order. \<open>os.walk\<close> neither follows a symbolic
  link to a directory nor reports a directory it cannot list, so both are directories
  without entries here.
\<close>

datatype entry =
    File (name: string) (st: "64 word option")
  | Dir (name: string) (children: "entry list")

fun is_Dir :: "entry \<Rightarrow> bool" where
  "is_Dir (Dir n cs) = True"
| "is_Dir (File n s) = False"

text \<open>The second and third component of what \<open>os.walk\<close> yields for a directory.\<close>

definition dirnames :: "entry list \<Rightarrow> string list" where
  "dirnames es = map name (filter is_Dir es)"

fun filenames :: "entry list \<Rightarrow> (string \<times> 64 word option) list" where
  "filenames [] = []"
| "filenames (File n s # es) = (n, s) # filenames es"
| "filenames (Dir n cs # es) = filenames es"

type_synonym iteration = "string \<times> string list \<times> (string \<times> 64 word option) list"

text \<open>
  \<open>os.walk\<close>, top down, on the directory \<open>d\<close>: the directory itself first, then each
  of its sub-directories in turn. \<open>rel\<close> is the path of \<open>d\<close> relative to the Kodi
  folder, in POSIX form, which is what the script computes from \<open>root\<close> with
  \<open>relative_to(kodi_path).as_posix()\<close>. Each file comes with its \<open>stat\<close> outcome.
\<close>

fun os_walk :: "string \<Rightarrow> entry \<Rightarrow> iteration list" where
  "os_walk rel (File n s) = []"
| "os_walk rel (Dir n cs) =
     (rel, dirnames cs, filenames cs) #
     concat (map (\<lambda>c. os_walk (rel @ ''/'' @ name c) c) cs)"

subsection \<open>Arguments, environment, state and result\<close>

text \<open>
  Of the command line only \<open>--dry-run\<close> and \<open>--skip-large\<close> decide what is selected;
  \<open>--kodi\<close>, \<open>--out\<close> and \<open>--name\<close> say where the folder and the archive are.
  \<open>--skip-large\<close> is parsed with \<open>type=int\<close>: any integer.
\<close>

record args =
  dry_run :: bool
  skip_large :: int

text \<open>
  The lines the script prints. The numbers are kept as they are: the script prints
  sizes in MB, rounded (\<open>:.1f\<close>, \<open>:.2f\<close>).
\<close>

datatype msg =
    Error_path_not_found
  | Please_provide_path
  | Separator
  | Kodi_source
  | Output_path bool
  | Max_file_size int
  | Skipped_Large string "64 word"
  | Total_files nat
  | Dry_run_header
  | Would_include string
  | Dry_run_complete
  | Successfully_created
  | Unexpected_error
  | Deleting_incomplete

text \<open>
  What one call of \<open>make_build\<close> meets.
  \<^item> \<open>kodi\<close>: what is at the path \<open>--kodi\<close> (\<open>None\<close>: nothing), as \<open>os.walk\<close> finds it. The
    walk starts after \<open>out_dir.mkdir\<close> and, in a normal run, after the archive has been
    opened: when \<open>--out\<close> lies inside the Kodi folder, the folder of a normal run holds
    the new archive and the folder of a dry run does not (see \<open>opened_in\<close> below). The
    two modes are therefore compared on two environments.
  \<^item> \<open>write_ok\<close>: whether \<open>zip_file.write\<close> of the file with that relative path
    returns; where it is \<open>False\<close> the call raises (a file that can be stat-ed but not
    read, a name that cannot be encoded, a full disk).
  \<^item> \<open>print_ok\<close>: whether \<open>print\<close> of that line returns, for the lines printed in the
    \<open>try\<close> statement and in its handler (a file name that standard output cannot
    encode, a closed pipe).
  \<^item> \<open>close_ok\<close>: whether the first \<open>zip_file.close()\<close> returns; it writes the central
    directory and raises on a full disk. A second \<open>close()\<close> finds the archive closed and
    returns.
  \<^item> \<open>unlink_ok\<close>: whether \<open>zip_path.unlink()\<close> returns.

  \<open>out_dir.mkdir\<close>, opening the archive, and the lines printed before the \<open>try\<close>
  statement (other than the size limit, below) are taken to succeed.
\<close>

record env =
  kodi :: "entry option"
  normcase :: "string \<Rightarrow> string"
  write_ok :: "string \<Rightarrow> bool"
  print_ok :: "msg \<Rightarrow> bool"
  close_ok :: bool
  unlink_ok :: bool

text \<open>
  The variables of \<open>make_build\<close> that change in the loop. \<open>zip_file\<close> is \<open>None\<close> in a
  dry run, as in the script; otherwise it holds the archive names written so far.
\<close>

record state =
  included_files :: "string list"
  zip_file :: "string list option"
  stdout :: "msg list"

text \<open>
  How a call ends: it returns, it leaves with \<open>sys.exit\<close>, or an exception leaves it.
\<close>

datatype exn = OverflowError | Print_raised | Close_raised | Unlink_raised

datatype exit = Returned | SystemExit int | Raised exn

text \<open>
  A finished call: how it ended, what it printed, \<open>included_files\<close> at that moment,
  whether \<open>out_dir.mkdir\<close> was reached, and the file at \<open>zip_path\<close> afterwards
  (\<open>None\<close>: there is none; after a failed \<open>close\<close> the file is there, incomplete).
\<close>

record run =
  status :: exit
  printed :: "msg list"
  included :: "string list"
  out_dir_made :: bool
  archive :: "string list option"

subsection \<open>\<open>make_build\<close>\<close>

text \<open>
  \<open>args.skip_large / (1024*1024)\<close> in the banner (line 124, before the \<open>try\<close> statement):
  the true division of two Python integers raises \<open>OverflowError\<close> when the quotient,
  rounded to a float, is out of range; that is from \<open>2 ^ 1024 - 2 ^ 970\<close> on, in absolute
  value. The sizes of files are below \<open>2 ^ 64\<close>, so \<open>file_size / (1024*1024)\<close> never
  does.
\<close>

definition overflows :: "int \<Rightarrow> bool" where
  "overflows n = (2 ^ 1044 - 2 ^ 990 \<le> \<bar>n\<bar>)"

text \<open>One \<open>print\<close> in the \<open>try\<close> statement, and several in a row.\<close>

definition print_line :: "env \<Rightarrow> msg \<Rightarrow> state \<Rightarrow> state + state" where
  "print_line e m s =
     (if print_ok e m then Inr (s\<lparr>stdout := stdout s @ [m]\<rparr>) else Inl s)"

fun print_lines :: "env \<Rightarrow> msg list \<Rightarrow> state \<Rightarrow> state + state" where
  "print_lines e [] s = Inr s"
| "print_lines e (m # ms) s =
     (case print_line e m s of Inl x \<Rightarrow> Inl x | Inr s' \<Rightarrow> print_lines e ms s')"

text \<open>
  The body of \<open>for filename in files\<close>, from the exclusion test on. \<open>Inr\<close> is the
  state after the body; \<open>Inl\<close> is the state in which \<open>zip_file.write\<close> or \<open>print\<close>
  raised.
\<close>

definition process_file ::
  "env \<Rightarrow> args \<Rightarrow> string \<Rightarrow> 64 word option \<Rightarrow> state \<Rightarrow> state + state" where
  "process_file e a rel_file_path stat s =
     (if should_exclude (normcase e) rel_file_path then Inr s
      else case stat of
        None \<Rightarrow> Inr s
      | Some file_size \<Rightarrow>
          if skip_large a > 0 \<and> uint file_size > skip_large a then
            (if dry_run a
             then print_line e (Skipped_Large rel_file_path file_size) s
             else Inr s)
          else
            (let s1 = s\<lparr>included_files := included_files s @ [rel_file_path]\<rparr> in
             if dry_run a then Inr s1
             else if write_ok e rel_file_path
               then Inr (s1\<lparr>zip_file := map_option (\<lambda>z. z @ [rel_file_path]) (zip_file s1)\<rparr>)
               else Inl s1))"

fun files_loop ::
  "env \<Rightarrow> args \<Rightarrow> string \<Rightarrow> (string \<times> 64 word option) list \<Rightarrow> state \<Rightarrow> state + state" where
  "files_loop e a rel_path [] s = Inr s"
| "files_loop e a rel_path ((filename, stat) # files) s =
     (case process_file e a (rel_path @ ''/'' @ filename) stat s of
        Inl x \<Rightarrow> Inl x
      | Inr s' \<Rightarrow> files_loop e a rel_path files s')"

definition dirs_to_keep :: "string list" where
  "dirs_to_keep = [''userdata'', ''addons'']"

text \<open>
  What \<open>for root, dirs, files in os.walk(kodi_path)\<close> runs through: the Kodi folder
  itself, with relative path \<open>.\<close>, and then, because the body replaces \<open>dirs\<close> there
  by the names in \<open>dirs_to_keep\<close>, only those top-level directories.
\<close>

definition pruned :: "entry list \<Rightarrow> entry list" where
  "pruned es = filter (\<lambda>d. name d \<in> set dirs_to_keep) (filter is_Dir es)"

definition walk :: "entry list \<Rightarrow> iteration list" where
  "walk es =
     (''.'', dirnames es, filenames es) #
     concat (map (\<lambda>d. os_walk (name d) d) (pruned es))"

fun walk_loop :: "env \<Rightarrow> args \<Rightarrow> iteration list \<Rightarrow> state \<Rightarrow> state + state" where
  "walk_loop e a [] s = Inr s"
| "walk_loop e a ((rel_path, dirs, files) # rest) s =
     (if rel_path = ''.'' then walk_loop e a rest s
      else case files_loop e a rel_path files s of
        Inl x \<Rightarrow> Inl x
      | Inr s' \<Rightarrow> walk_loop e a rest s')"

text \<open>The lines after the loop (\<open>Final Output\<close>), still in the \<open>try\<close> statement.\<close>

definition final_output :: "args \<Rightarrow> state \<Rightarrow> msg list" where
  "final_output a s =
     [Separator, Total_files (length (included_files s))] @
     (if dry_run a
      then [Dry_run_header] @ map Would_include (included_files s) @ [Dry_run_complete]
      else [Successfully_created])"

text \<open>The body of the \<open>try\<close> statement: the walk, then the final output.\<close>

definition try_body :: "env \<Rightarrow> args \<Rightarrow> entry list \<Rightarrow> state \<Rightarrow> state + state" where
  "try_body e a es s0 =
     (case walk_loop e a (walk es) s0 of
        Inl x \<Rightarrow> Inl x
      | Inr s \<Rightarrow> print_lines e (final_output a s) s)"

text \<open>The call ends with an exception, in state \<open>s\<close>; the file at \<open>zip_path\<close> stays.\<close>

definition raised :: "exn \<Rightarrow> state \<Rightarrow> run" where
  "raised x s =
     \<lparr>status = Raised x, printed = stdout s, included = included_files s,
      out_dir_made = True, archive = zip_file s\<rparr>"

definition returned :: "state \<Rightarrow> string list option \<Rightarrow> run" where
  "returned s z =
     \<lparr>status = Returned, printed = stdout s, included = included_files s,
      out_dir_made = True, archive = z\<rparr>"

text \<open>
  The \<open>finally\<close> clause when the \<open>try\<close> body has come to its end: \<open>zip_file.close()\<close>.
\<close>

definition finally_close :: "env \<Rightarrow> state \<Rightarrow> run" where
  "finally_close e s =
     (if zip_file s \<noteq> None \<and> \<not> close_ok e then raised Close_raised s
      else returned s (zip_file s))"

text \<open>
  The \<open>except Exception\<close> handler, statement by statement: the message;
  \<open>zip_file.close()\<close>; then, in a normal run and if the file at \<open>zip_path\<close> exists (it
  does once the archive has been opened), a second message and \<open>zip_path.unlink()\<close>.
  An exception raised here leaves \<open>make_build\<close>, through the \<open>finally\<close> clause, whose
  \<open>close()\<close> is the first one only if the message itself failed.
\<close>

definition handler :: "env \<Rightarrow> args \<Rightarrow> state \<Rightarrow> run" where
  "handler e a s =
     (if \<not> print_ok e Unexpected_error then
        (if zip_file s \<noteq> None \<and> \<not> close_ok e then raised Close_raised s
         else raised Print_raised s)
      else
        (let s1 = s\<lparr>stdout := stdout s @ [Unexpected_error]\<rparr> in
         if zip_file s1 \<noteq> None \<and> \<not> close_ok e then raised Close_raised s1
         else if \<not> dry_run a \<and> zip_file s1 \<noteq> None then
           (if \<not> print_ok e Deleting_incomplete then raised Print_raised s1
            else
              (let s2 = s1\<lparr>stdout := stdout s1 @ [Deleting_incomplete]\<rparr> in
               if \<not> unlink_ok e then raised Unlink_raised s2
               else returned s2 None))
         else returned s1 (zip_file s1)))"

text \<open>
  \<open>kodi_path.is_dir()\<close>. In \<open>make_build\<close> below the test is the case distinction on
  \<open>kodi e\<close>: the first case is the directory, the other is \<open>not kodi_path.is_dir()\<close>.
\<close>

fun is_dir :: "entry option \<Rightarrow> bool" where
  "is_dir (Some (Dir n es)) = True"
| "is_dir (Some (File n x)) = False"
| "is_dir None = False"

definition make_build :: "env \<Rightarrow> args \<Rightarrow> run" where
  "make_build e a =
     (case kodi e of
        Some (Dir n es) \<Rightarrow>
          if overflows (skip_large a) then
            \<lparr>status = Raised OverflowError,
             printed = [Separator, Kodi_source, Output_path (dry_run a)],
             included = [], out_dir_made = True, archive = None\<rparr>
          else
            (let s0 = \<lparr>included_files = [],
                       zip_file = (if dry_run a then None else Some []),
                       stdout = [Separator, Kodi_source, Output_path (dry_run a),
                                 Max_file_size (skip_large a), Separator]\<rparr>
             in case try_body e a es s0 of
                  Inr s \<Rightarrow> finally_close e s
                | Inl s \<Rightarrow> handler e a s)
      | _ \<Rightarrow>
          \<lparr>status = SystemExit 1, printed = [Error_path_not_found, Please_provide_path],
           included = [], out_dir_made = False, archive = None\<rparr>)"

text \<open>
  \<open>ZipFile(zip_path, 'w')\<close> seen from the walk, for \<open>--out\<close> at the top-level directory
  \<open>d\<close> of the Kodi folder: the new archive \<open>f\<close> is one more file of \<open>d\<close>.
\<close>

fun opened_in :: "string \<Rightarrow> entry \<Rightarrow> entry list \<Rightarrow> entry list" where
  "opened_in d f [] = []"
| "opened_in d f (c # cs) =
     (if is_Dir c \<and> name c = d then Dir d (children c @ [f]) # cs
      else c # opened_in d f cs)"

section \<open>Vocabulary of the statements and proofs\<close>

subsection \<open>The files of the tree and the files the walk reaches\<close>

text \<open>
  The files of a run of iterations, in the order the two loops reach them, each under
  the relative path the script computes for it (\<open>rel_file_path\<close>).
\<close>

definition walk_files :: "iteration list \<Rightarrow> (string \<times> 64 word option) list" where
  "walk_files its =
     concat (map (\<lambda>(rel, dirs, files). map (\<lambda>(f, s). (rel @ ''/'' @ f, s)) files) its)"

text \<open>The two loops as one loop over such a list.\<close>

fun run_files ::
  "env \<Rightarrow> args \<Rightarrow> (string \<times> 64 word option) list \<Rightarrow> state \<Rightarrow> state + state" where
  "run_files e a [] s = Inr s"
| "run_files e a ((p, x) # fs) s =
     (case process_file e a p x s of Inl y \<Rightarrow> Inl y | Inr s' \<Rightarrow> run_files e a fs s')"

text \<open>The files below the top-level directories that the pruning keeps.\<close>

definition kept_files :: "entry list \<Rightarrow> (string \<times> 64 word option) list" where
  "kept_files es = walk_files (concat (map (\<lambda>d. os_walk (name d) d) (pruned es)))"

text \<open>
  Every file of the Kodi folder, with its relative path, the top-level directory it
  lies in (\<open>None\<close> for a file of the Kodi folder itself) and its \<open>stat\<close> outcome.
\<close>

definition tree_files :: "entry list \<Rightarrow> (string \<times> string option \<times> 64 word option) list" where
  "tree_files es =
     map (\<lambda>(f, x). (f, None, x)) (filenames es) @
     concat (map (\<lambda>d. map (\<lambda>(p, x). (p, Some (name d), x)) (walk_files (os_walk (name d) d)))
       (filter is_Dir es))"

subsection \<open>What the loop body does with one file\<close>

text \<open>
  \<open>selected\<close>: the file reaches \<open>included_files.append\<close>;
  \<open>skip_line\<close>: the line a dry run prints for the file, if any.
\<close>

definition selected :: "(string \<Rightarrow> string) \<Rightarrow> args \<Rightarrow> string \<times> 64 word option \<Rightarrow> bool" where
  "selected nc a f =
     (\<not> should_exclude nc (fst f) \<and>
      (case snd f of None \<Rightarrow> False
       | Some sz \<Rightarrow> \<not> (skip_large a > 0 \<and> uint sz > skip_large a)))"

definition skip_line :: "(string \<Rightarrow> string) \<Rightarrow> args \<Rightarrow> string \<times> 64 word option \<Rightarrow> msg list" where
  "skip_line nc a f =
     (case snd f of None \<Rightarrow> []
      | Some sz \<Rightarrow>
          if \<not> should_exclude nc (fst f) \<and> skip_large a > 0 \<and> uint sz > skip_large a
          then [Skipped_Large (fst f) sz] else [])"

definition state_of :: "state + state \<Rightarrow> state" where
  "state_of r = (case r of Inl s \<Rightarrow> s | Inr s \<Rightarrow> s)"

text \<open>
  The state before the loop; the rest of the \<open>try\<close> body after the loop; the handler or
  the \<open>finally\<close> clause after the \<open>try\<close> body; and the selection and the report of a
  whole walk.
\<close>

definition start :: "args \<Rightarrow> state" where
  "start a =
     \<lparr>included_files = [],
      zip_file = (if dry_run a then None else Some []),
      stdout = [Separator, Kodi_source, Output_path (dry_run a),
                Max_file_size (skip_large a), Separator]\<rparr>"

definition after_loop :: "env \<Rightarrow> args \<Rightarrow> state + state \<Rightarrow> state + state" where
  "after_loop e a r =
     (case r of Inl x \<Rightarrow> Inl x | Inr s \<Rightarrow> print_lines e (final_output a s) s)"

definition ending :: "env \<Rightarrow> args \<Rightarrow> state + state \<Rightarrow> run" where
  "ending e a r = (case r of Inl s \<Rightarrow> handler e a s | Inr s \<Rightarrow> finally_close e s)"

definition selection :: "env \<Rightarrow> args \<Rightarrow> entry list \<Rightarrow> string list" where
  "selection e a es = map fst (filter (selected (normcase e) a) (kept_files es))"

definition skip_report :: "env \<Rightarrow> args \<Rightarrow> entry list \<Rightarrow> msg list" where
  "skip_report e a es =
     (if dry_run a then concat (map (skip_line (normcase e) a) (kept_files es)) else [])"

subsection \<open>Further vocabulary\<close>

text \<open>The paths a dry run lists after \<open>Files that would be included\<close>.\<close>

fun listed :: "msg \<Rightarrow> string list" where
  "listed (Would_include p) = [p]"
| "listed m = []"

text \<open>
  The tree without the files that cannot be stat-ed, and the test for a file of the walk
  that its size is known.
\<close>

fun can_stat :: "entry \<Rightarrow> bool" where
  "can_stat (File n None) = False"
| "can_stat (File n (Some sz)) = True"
| "can_stat (Dir n cs) = True"

fun without_unstatable :: "entry \<Rightarrow> entry" where
  "without_unstatable (File n x) = File n x"
| "without_unstatable (Dir n cs) = Dir n (map without_unstatable (filter can_stat cs))"

definition has_size :: "string \<times> 64 word option \<Rightarrow> bool" where
  "has_size f = (snd f \<noteq> None)"

subsection \<open>A small Kodi folder\<close>

text \<open>
  The folder, an environment in which every call succeeds, and the command lines of a
  normal and of a dry run with the limit at 100 bytes, of normal runs with the limit at
  0 and at -1, and of a dry run with a limit that overflows the banner.
\<close>

definition example_entries :: "entry list" where
  "example_entries =
     [File ''kodi.log'' (Some 10),
      Dir ''userdata''
        [File ''keep.txt'' (Some 10),
         Dir ''Thumbnails'' [File ''x.png'' (Some 10)],
         File ''huge.bin'' (Some 200),
         File ''locked.xml'' None],
      Dir ''temp'' [File ''secret.txt'' (Some 10)],
      Dir ''addons'' [Dir ''skin.one'' [File ''addon.xml'' (Some 30)]]]"

definition example_env :: env where
  "example_env =
     \<lparr>kodi = Some (Dir ''Kodi'' example_entries), normcase = (\<lambda>s. s),
      write_ok = (\<lambda>p. True), print_ok = (\<lambda>m. True), close_ok = True, unlink_ok = True\<rparr>"

definition example_args :: args where
  "example_args = \<lparr>dry_run = False, skip_large = 100\<rparr>"

definition preview_args :: args where
  "preview_args = \<lparr>dry_run = True, skip_large = 100\<rparr>"

definition zero_args :: args where
  "zero_args = \<lparr>dry_run = False, skip_large = 0\<rparr>"

definition negative_args :: args where
  "negative_args = \<lparr>dry_run = False, skip_large = - 1\<rparr>"

definition overflow_args :: args where
  "overflow_args = \<lparr>dry_run = True, skip_large = - (2 ^ 1044)\<rparr>"

text \<open>
  Other environments: no Kodi folder; the small folder where the archive write of the
  first file, or of the last one, raises; the latter on a full disk, where \<open>close\<close>
  raises too; the small folder where one \<open>[Skipped Large]\<close> line cannot be printed;
  and the small folder as the walk of a normal run finds it with \<open>--out\<close> at
  \<open>userdata\<close>, the archive already opened there.
\<close>

definition missing_env :: env where
  "missing_env =
     \<lparr>kodi = None, normcase = (\<lambda>s. s),
      write_ok = (\<lambda>p. True), print_ok = (\<lambda>m. True), close_ok = True, unlink_ok = True\<rparr>"

definition blocked_env :: env where
  "blocked_env =
     \<lparr>kodi = Some (Dir ''Kodi'' example_entries), normcase = (\<lambda>s. s),
      write_ok = (\<lambda>p. p \<noteq> ''userdata/keep.txt''), print_ok = (\<lambda>m. True),
      close_ok = True, unlink_ok = True\<rparr>"

definition unreadable_env :: env where
  "unreadable_env =
     \<lparr>kodi = Some (Dir ''Kodi'' example_entries), normcase = (\<lambda>s. s),
      write_ok = (\<lambda>p. p \<noteq> ''addons/skin.one/addon.xml''), print_ok = (\<lambda>m. True),
      close_ok = True, unlink_ok = True\<rparr>"

definition full_disk_env :: env where
  "full_disk_env =
     \<lparr>kodi = Some (Dir ''Kodi'' example_entries), normcase = (\<lambda>s. s),
      write_ok = (\<lambda>p. p \<noteq> ''addons/skin.one/addon.xml''), print_ok = (\<lambda>m. True),
      close_ok = False, unlink_ok = True\<rparr>"

definition unprintable_env :: env where
  "unprintable_env =
     \<lparr>kodi = Some (Dir ''Kodi'' example_entries), normcase = (\<lambda>s. s),
      write_ok = (\<lambda>p. True), print_ok = (\<lambda>m. m \<noteq> Skipped_Large ''userdata/huge.bin'' 200),
      close_ok = True, unlink_ok = True\<rparr>"

definition archived_env :: env where
  "archived_env =
     \<lparr>kodi = Some (Dir ''Kodi''
        (opened_in ''userdata'' (File ''GusFace_Build.zip'' (Some 0)) example_entries)),
      normcase = (\<lambda>s. s),
      write_ok = (\<lambda>p. True), print_ok = (\<lambda>m. True), close_ok = True, unlink_ok = True\<rparr>"

section \<open>Lemmas\<close>

lemma any_pattern_iff:
  "any_pattern nc r ps \<longleftrightarrow> (\<exists>p \<in> set ps. fnmatch nc r p)"
  by (induction ps) auto

lemma EXCLUDE_PATTERNS_no_bracket:
  "\<forall>p \<in> set EXCLUDE_PATTERNS. CHR ''['' \<notin> set p"
  by (simp add: EXCLUDE_PATTERNS_def)

lemma files_loop_run:
  "files_loop e a rel fs s = run_files e a (map (\<lambda>(f, x). (rel @ ''/'' @ f, x)) fs) s"
  by (induction fs arbitrary: s) (auto split: sum.splits)

lemma run_files_append:
  "run_files e a (fs @ gs) s =
     (case run_files e a fs s of Inl y \<Rightarrow> Inl y | Inr s' \<Rightarrow> run_files e a gs s')"
  by (induction fs arbitrary: s) (auto split: sum.splits)

lemma walk_files_Cons:
  "walk_files ((rel, ds, fs) # its) = map (\<lambda>(f, x). (rel @ ''/'' @ f, x)) fs @ walk_files its"
  by (simp add: walk_files_def)

lemma walk_files_Nil: "walk_files [] = []"
  by (simp add: walk_files_def)

lemma walk_files_append: "walk_files (xs @ ys) = walk_files xs @ walk_files ys"
  by (simp add: walk_files_def)

lemma walk_loop_run:
  "\<forall>it \<in> set its. fst it \<noteq> ''.'' \<Longrightarrow> walk_loop e a its s = run_files e a (walk_files its) s"
proof (induction its arbitrary: s)
  case Nil
  show ?case by (simp add: walk_files_Nil)
next
  case (Cons it its)
  obtain rel ds fs where it: "it = (rel, ds, fs)" by (cases it)
  from Cons.prems it have rel: "rel \<noteq> ''.''" by simp
  from Cons.prems have rest: "\<forall>it \<in> set its. fst it \<noteq> ''.''" by simp
  show ?case
    using rel Cons.IH [OF rest]
    by (simp add: it walk_files_Cons run_files_append files_loop_run split: sum.splits)
qed

lemma os_walk_hd:
  "rel \<noteq> [] \<Longrightarrow> it \<in> set (os_walk rel d) \<Longrightarrow> fst it \<noteq> [] \<and> hd (fst it) = hd rel"
proof (induction d arbitrary: rel it)
  case (File n x)
  then show ?case by simp
next
  case (Dir n cs)
  from Dir.prems(2) consider "it = (rel, dirnames cs, filenames cs)"
    | c where "c \<in> set cs" "it \<in> set (os_walk (rel @ ''/'' @ name c) c)"
    by auto
  then show ?case
  proof cases
    case 1
    with Dir.prems(1) show ?thesis by simp
  next
    case 2
    have "rel @ ''/'' @ name c \<noteq> []" by simp
    from Dir.IH [OF 2(1) this 2(2)] Dir.prems(1) show ?thesis by simp
  qed
qed

lemma kept_not_dot:
  assumes "it \<in> set (concat (map (\<lambda>d. os_walk (name d) d) (pruned es)))"
  shows "fst it \<noteq> ''.''"
proof -
  from assms obtain d where d: "name d \<in> set dirs_to_keep" "it \<in> set (os_walk (name d) d)"
    by (auto simp: pruned_def)
  from d(1) have ne: "name d \<noteq> []" and h: "hd (name d) \<noteq> CHR ''.''"
    by (auto simp: dirs_to_keep_def)
  from os_walk_hd [OF ne d(2)] h show ?thesis by auto
qed

lemma walk_loop_walk:
  "walk_loop e a (walk es) s = run_files e a (kept_files es) s"
proof -
  have "walk_loop e a (walk es) s =
        walk_loop e a (concat (map (\<lambda>d. os_walk (name d) d) (pruned es))) s"
    by (simp add: walk_def)
  also have "\<dots> = run_files e a (kept_files es) s"
    unfolding kept_files_def
    by (rule walk_loop_run) (use kept_not_dot in blast)
  finally show ?thesis .
qed

lemma process_file_dry:
  "dry_run a \<Longrightarrow> \<forall>m \<in> set (skip_line (normcase e) a (p, x)). print_ok e m \<Longrightarrow>
   process_file e a p x s =
     Inr (s\<lparr>included_files := included_files s @ (if selected (normcase e) a (p, x) then [p] else []),
            stdout := stdout s @ skip_line (normcase e) a (p, x)\<rparr>)"
  by (cases x) (auto simp: process_file_def selected_def skip_line_def print_line_def)

lemma run_files_dry:
  "dry_run a \<Longrightarrow> \<forall>f \<in> set fs. \<forall>m \<in> set (skip_line (normcase e) a f). print_ok e m \<Longrightarrow>
   run_files e a fs s =
     Inr (s\<lparr>included_files := included_files s @ map fst (filter (selected (normcase e) a) fs),
            stdout := stdout s @ concat (map (skip_line (normcase e) a) fs)\<rparr>)"
proof (induction fs arbitrary: s)
  case Nil
  show ?case by simp
next
  case (Cons f fs)
  obtain p x where f: "f = (p, x)" by (cases f)
  from Cons.prems(2) f have h: "\<forall>m \<in> set (skip_line (normcase e) a (p, x)). print_ok e m"
    by simp
  from Cons.prems(2)
  have rest: "\<forall>f \<in> set fs. \<forall>m \<in> set (skip_line (normcase e) a f). print_ok e m" by simp
  show ?case
    by (simp add: f process_file_dry [OF Cons.prems(1) h] Cons.IH [OF Cons.prems(1) rest])
qed

lemma process_file_ok:
  "\<not> dry_run a \<Longrightarrow> (selected (normcase e) a (p, x) \<longrightarrow> write_ok e p) \<Longrightarrow>
   process_file e a p x s =
     Inr (s\<lparr>included_files := included_files s @ (if selected (normcase e) a (p, x) then [p] else []),
            zip_file := map_option (\<lambda>z. z @ (if selected (normcase e) a (p, x) then [p] else []))
                          (zip_file s)\<rparr>)"
  by (cases x; cases "zip_file s") (auto simp: process_file_def selected_def)

lemma run_files_ok:
  "\<not> dry_run a \<Longrightarrow> \<forall>f \<in> set fs. selected (normcase e) a f \<longrightarrow> write_ok e (fst f) \<Longrightarrow>
   run_files e a fs s =
     Inr (s\<lparr>included_files := included_files s @ map fst (filter (selected (normcase e) a) fs),
            zip_file := map_option (\<lambda>z. z @ map fst (filter (selected (normcase e) a) fs))
                          (zip_file s)\<rparr>)"
proof (induction fs arbitrary: s)
  case Nil
  show ?case by (cases "zip_file s") simp_all
next
  case (Cons f fs)
  obtain p x where f: "f = (p, x)" by (cases f)
  from Cons.prems(2) f have w: "selected (normcase e) a (p, x) \<longrightarrow> write_ok e p" by simp
  from Cons.prems(2) have rest: "\<forall>f \<in> set fs. selected (normcase e) a f \<longrightarrow> write_ok e (fst f)"
    by simp
  show ?case
    by (cases "zip_file s")
       (simp_all add: f process_file_ok [OF Cons.prems(1) w] Cons.IH [OF Cons.prems(1) rest])
qed

lemma process_file_included:
  "q \<in> set (included_files (state_of (process_file e a p x s))) \<Longrightarrow>
   q \<in> set (included_files s) \<or> (q = p \<and> selected (normcase e) a (p, x))"
  by (cases x)
     (auto simp: process_file_def selected_def state_of_def Let_def print_line_def
       split: if_splits)

lemma run_files_included:
  "q \<in> set (included_files (state_of (run_files e a fs s))) \<Longrightarrow>
   q \<in> set (included_files s) \<or> (\<exists>x. (q, x) \<in> set fs \<and> selected (normcase e) a (q, x))"
proof (induction fs arbitrary: s)
  case Nil
  then show ?case by (simp add: state_of_def)
next
  case (Cons f fs)
  obtain p x where f: "f = (p, x)" by (cases f)
  show ?case
  proof (cases "process_file e a p x s")
    case (Inl y)
    with Cons.prems have "q \<in> set (included_files (state_of (process_file e a p x s)))"
      by (simp add: f state_of_def)
    from process_file_included [OF this] show ?thesis by (auto simp: f)
  next
    case (Inr s')
    with Cons.prems have "q \<in> set (included_files (state_of (run_files e a fs s')))"
      by (simp add: f)
    from Cons.IH [OF this] consider "q \<in> set (included_files s')"
      | "\<exists>x. (q, x) \<in> set fs \<and> selected (normcase e) a (q, x)" by blast
    then show ?thesis
    proof cases
      case 1
      with Inr have "q \<in> set (included_files (state_of (process_file e a p x s)))"
        by (simp add: state_of_def)
      from process_file_included [OF this] show ?thesis by (auto simp: f)
    next
      case 2
      then show ?thesis by (auto simp: f)
    qed
  qed
qed

lemma process_file_stdout:
  "m \<in> set (stdout (state_of (process_file e a p x s))) \<Longrightarrow>
   m \<in> set (stdout s) \<or> (dry_run a \<and> m \<in> set (skip_line (normcase e) a (p, x)))"
  by (cases x)
     (auto simp: process_file_def skip_line_def state_of_def Let_def print_line_def
       split: if_splits)

lemma run_files_stdout:
  "m \<in> set (stdout (state_of (run_files e a fs s))) \<Longrightarrow>
   m \<in> set (stdout s) \<or> (dry_run a \<and> (\<exists>f \<in> set fs. m \<in> set (skip_line (normcase e) a f)))"
proof (induction fs arbitrary: s)
  case Nil
  then show ?case by (simp add: state_of_def)
next
  case (Cons f fs)
  obtain p x where f: "f = (p, x)" by (cases f)
  show ?case
  proof (cases "process_file e a p x s")
    case (Inl y)
    with Cons.prems have "m \<in> set (stdout (state_of (process_file e a p x s)))"
      by (simp add: f state_of_def)
    from process_file_stdout [OF this] show ?thesis by (auto simp: f)
  next
    case (Inr s')
    with Cons.prems have "m \<in> set (stdout (state_of (run_files e a fs s')))"
      by (simp add: f)
    from Cons.IH [OF this] consider "m \<in> set (stdout s')"
      | "dry_run a \<and> (\<exists>f \<in> set fs. m \<in> set (skip_line (normcase e) a f))" by blast
    then show ?thesis
    proof cases
      case 1
      with Inr have "m \<in> set (stdout (state_of (process_file e a p x s)))"
        by (simp add: state_of_def)
      from process_file_stdout [OF this] show ?thesis by (auto simp: f)
    next
      case 2
      then show ?thesis by (auto simp: f)
    qed
  qed
qed

lemma process_file_stdout_mono:
  "set (stdout s) \<subseteq> set (stdout (state_of (process_file e a p x s)))"
  by (cases x) (auto simp: process_file_def state_of_def Let_def print_line_def)

lemma run_files_stdout_mono:
  "set (stdout s) \<subseteq> set (stdout (state_of (run_files e a fs s)))"
proof (induction fs arbitrary: s)
  case Nil
  show ?case by (simp add: state_of_def)
next
  case (Cons f fs)
  obtain p x where f: "f = (p, x)" by (cases f)
  show ?case
  proof (cases "process_file e a p x s")
    case (Inl y)
    with process_file_stdout_mono [of s e a p x] show ?thesis by (simp add: f state_of_def)
  next
    case (Inr s')
    with process_file_stdout_mono [of s e a p x] Cons.IH [of s'] show ?thesis
      by (auto simp: f state_of_def)
  qed
qed

lemma print_lines_ok:
  "\<forall>m \<in> set ms. print_ok e m \<Longrightarrow> print_lines e ms s = Inr (s\<lparr>stdout := stdout s @ ms\<rparr>)"
  by (induction ms arbitrary: s) (simp_all add: print_line_def)

lemma print_lines_included:
  "included_files (state_of (print_lines e ms s)) = included_files s"
  by (induction ms arbitrary: s) (simp_all add: print_line_def state_of_def)

lemma print_lines_zip_file:
  "zip_file (state_of (print_lines e ms s)) = zip_file s"
  by (induction ms arbitrary: s) (simp_all add: print_line_def state_of_def)

lemma print_lines_stdout:
  "m \<in> set (stdout (state_of (print_lines e ms s))) \<Longrightarrow> m \<in> set (stdout s) \<or> m \<in> set ms"
proof (induction ms arbitrary: s)
  case Nil
  then show ?case by (simp add: state_of_def)
next
  case (Cons m' ms)
  show ?case
  proof (cases "print_ok e m'")
    case True
    with Cons.prems
    have "m \<in> set (stdout (state_of (print_lines e ms (s\<lparr>stdout := stdout s @ [m']\<rparr>))))"
      by (simp add: print_line_def)
    from Cons.IH [OF this] show ?thesis by auto
  next
    case False
    with Cons.prems show ?thesis by (simp add: print_line_def state_of_def)
  qed
qed

lemma print_lines_stdout_mono:
  "set (stdout s) \<subseteq> set (stdout (state_of (print_lines e ms s)))"
proof (induction ms arbitrary: s)
  case Nil
  show ?case by (simp add: state_of_def)
next
  case (Cons m' ms)
  show ?case
  proof (cases "print_ok e m'")
    case True
    with Cons.IH [of "s\<lparr>stdout := stdout s @ [m']\<rparr>"] show ?thesis
      by (auto simp: print_line_def)
  next
    case False
    then show ?thesis by (simp add: print_line_def state_of_def)
  qed
qed

lemma included_handler: "included (handler e a s) = included_files s"
  by (simp add: handler_def raised_def returned_def Let_def)

lemma included_finally_close: "included (finally_close e s) = included_files s"
  by (simp add: finally_close_def raised_def returned_def)

lemma printed_finally_close: "printed (finally_close e s) = stdout s"
  by (simp add: finally_close_def raised_def returned_def)

lemma printed_handler:
  "m \<in> set (printed (handler e a s)) \<Longrightarrow>
   m \<in> set (stdout s) \<or> m = Unexpected_error \<or> m = Deleting_incomplete"
  by (auto simp: handler_def raised_def returned_def Let_def split: if_splits)

lemma printed_handler_mono: "set (stdout s) \<subseteq> set (printed (handler e a s))"
  by (auto simp: handler_def raised_def returned_def Let_def)

lemma included_ending: "included (ending e a r) = included_files (state_of r)"
  by (cases r) (simp_all add: ending_def state_of_def included_handler included_finally_close)

lemma printed_ending:
  "m \<in> set (printed (ending e a r)) \<Longrightarrow>
   m \<in> set (stdout (state_of r)) \<or> m = Unexpected_error \<or> m = Deleting_incomplete"
  by (cases r) (auto simp: ending_def state_of_def printed_finally_close dest: printed_handler)

lemma printed_ending_mono: "set (stdout (state_of r)) \<subseteq> set (printed (ending e a r))"
  using printed_handler_mono
  by (cases r) (auto simp: ending_def state_of_def printed_finally_close)

lemma included_after_loop:
  "included_files (state_of (after_loop e a r)) = included_files (state_of r)"
  by (cases r) (simp_all add: after_loop_def state_of_def print_lines_included [unfolded state_of_def])

lemma stdout_after_loop:
  "m \<in> set (stdout (state_of (after_loop e a r))) \<Longrightarrow>
   m \<in> set (stdout (state_of r)) \<or> m \<in> set (final_output a (state_of r))"
proof (cases r)
  case (Inl s)
  assume "m \<in> set (stdout (state_of (after_loop e a r)))"
  with Inl show ?thesis by (simp add: after_loop_def state_of_def)
next
  case (Inr s)
  assume "m \<in> set (stdout (state_of (after_loop e a r)))"
  with Inr have "m \<in> set (stdout (state_of (print_lines e (final_output a s) s)))"
    by (simp add: after_loop_def)
  from print_lines_stdout [OF this] Inr show ?thesis by (simp add: state_of_def)
qed

lemma stdout_after_loop_mono:
  "set (stdout (state_of r)) \<subseteq> set (stdout (state_of (after_loop e a r)))"
proof (cases r)
  case (Inl s)
  then show ?thesis by (simp add: after_loop_def state_of_def)
next
  case (Inr s)
  with print_lines_stdout_mono [of s e "final_output a s"] show ?thesis
    by (simp add: after_loop_def state_of_def)
qed

lemma make_build_Dir:
  "kodi e = Some (Dir n es) \<Longrightarrow>
   make_build e a =
     (if overflows (skip_large a) then
        \<lparr>status = Raised OverflowError,
         printed = [Separator, Kodi_source, Output_path (dry_run a)],
         included = [], out_dir_made = True, archive = None\<rparr>
      else ending e a (after_loop e a (run_files e a (kept_files es) (start a))))"
  by (simp add: make_build_def try_body_def walk_loop_walk start_def ending_def after_loop_def
      split: sum.splits)

lemma included_make_build:
  "kodi e = Some (Dir n es) \<Longrightarrow> \<not> overflows (skip_large a) \<Longrightarrow>
   included (make_build e a) = included_files (state_of (run_files e a (kept_files es) (start a)))"
  by (simp add: make_build_Dir included_ending included_after_loop)

lemma included_overflow:
  "kodi e = Some (Dir n es) \<Longrightarrow> overflows (skip_large a) \<Longrightarrow> included (make_build e a) = []"
  by (simp add: make_build_Dir)

lemma make_build_not_dir:
  assumes "\<not> is_dir (kodi e)"
  shows "make_build e a =
     \<lparr>status = SystemExit 1, printed = [Error_path_not_found, Please_provide_path],
      included = [], out_dir_made = False, archive = None\<rparr>"
proof (cases "kodi e")
  case None
  then show ?thesis by (simp add: make_build_def)
next
  case (Some d)
  with assms show ?thesis by (cases d) (simp_all add: make_build_def)
qed

lemma included_not_dir: "\<not> is_dir (kodi e) \<Longrightarrow> included (make_build e a) = []"
  by (simp add: make_build_not_dir)

lemma is_dir_cases:
  obtains "\<not> is_dir k" | n es where "k = Some (Dir n es)"
proof (cases k)
  case None
  then have "\<not> is_dir k" by simp
  then show ?thesis ..
next
  case (Some d)
  show ?thesis
  proof (cases d)
    case (File n x)
    with Some have "\<not> is_dir k" by simp
    then show ?thesis ..
  next
    case (Dir n es)
    with Some have "k = Some (Dir n es)" by simp
    then show ?thesis ..
  qed
qed

lemma set_walk_files_concat:
  "set (walk_files (concat (map g ds))) = (\<Union>d \<in> set ds. set (walk_files (g d)))"
  by (induction ds) (simp_all add: walk_files_Nil walk_files_append)

lemma in_tree_files:
  "(p, t, x) \<in> set (tree_files es) \<longleftrightarrow>
     (t = None \<and> (p, x) \<in> set (filenames es)) \<or>
     (\<exists>d \<in> set es. is_Dir d \<and> t = Some (name d) \<and>
        (p, x) \<in> set (walk_files (os_walk (name d) d)))"
  by (auto simp: tree_files_def)

lemma in_kept_files:
  "(p, x) \<in> set (kept_files es) \<longleftrightarrow>
     (\<exists>d \<in> set es. is_Dir d \<and> name d \<in> set dirs_to_keep \<and>
        (p, x) \<in> set (walk_files (os_walk (name d) d)))"
  by (auto simp: kept_files_def pruned_def set_walk_files_concat)

lemma kept_files_iff:
  "(p, x) \<in> set (kept_files es) \<longleftrightarrow>
     (\<exists>d \<in> set dirs_to_keep. (p, Some d, x) \<in> set (tree_files es))"
  unfolding in_tree_files in_kept_files by auto


lemma skip_line_set:
  "m \<in> set (skip_line nc a f) \<longleftrightarrow>
     (\<exists>sz. m = Skipped_Large (fst f) sz \<and> snd f = Some sz \<and> \<not> should_exclude nc (fst f) \<and>
        0 < skip_large a \<and> skip_large a < uint sz)"
  by (cases "snd f") (auto simp: skip_line_def)

lemma in_skip_report:
  "m \<in> set (skip_report e a es) \<longleftrightarrow>
     (dry_run a \<and> (\<exists>p sz. m = Skipped_Large p sz \<and> (p, Some sz) \<in> set (kept_files es) \<and>
        \<not> should_exclude (normcase e) p \<and> 0 < skip_large a \<and> skip_large a < uint sz))"
  by (force simp: skip_report_def skip_line_set)

lemma included_subset:
  assumes "kodi e = Some (Dir n es)" and "p \<in> set (included (make_build e a))"
  shows "\<exists>x. (p, x) \<in> set (kept_files es) \<and> selected (normcase e) a (p, x)"
proof (cases "overflows (skip_large a)")
  case True
  with assms show ?thesis by (simp add: included_overflow)
next
  case False
  with assms have "p \<in> set (included_files (state_of (run_files e a (kept_files es) (start a))))"
    by (simp add: included_make_build)
  from run_files_included [OF this] show ?thesis by (simp add: start_def)
qed

lemma included_not_excluded:
  assumes "p \<in> set (included (make_build e a))"
  shows "\<not> should_exclude (normcase e) p"
proof (cases "kodi e" rule: is_dir_cases)
  case 1
  with assms show ?thesis by (simp add: included_not_dir)
next
  case (2 n es)
  from included_subset [OF this assms] show ?thesis by (auto simp: selected_def)
qed

lemma printed_skip:
  assumes "kodi e = Some (Dir n es)"
    and "Skipped_Large p sz \<in> set (printed (make_build e a))"
  shows "dry_run a \<and> (p, Some sz) \<in> set (kept_files es) \<and> \<not> should_exclude (normcase e) p \<and>
         0 < skip_large a \<and> skip_large a < uint sz"
proof (cases "overflows (skip_large a)")
  case True
  with assms show ?thesis by (simp add: make_build_Dir)
next
  case False
  let ?r = "run_files e a (kept_files es) (start a)"
  from assms False have "Skipped_Large p sz \<in> set (printed (ending e a (after_loop e a ?r)))"
    by (simp add: make_build_Dir)
  from printed_ending [OF this]
  have "Skipped_Large p sz \<in> set (stdout (state_of (after_loop e a ?r)))" by simp
  from stdout_after_loop [OF this]
  have "Skipped_Large p sz \<in> set (stdout (state_of ?r))"
    by (auto simp: final_output_def split: if_splits)
  from run_files_stdout [OF this]
  have "dry_run a \<and> (\<exists>f \<in> set (kept_files es). Skipped_Large p sz \<in> set (skip_line (normcase e) a f))"
    by (simp add: start_def)
  then show ?thesis by (force simp: skip_line_set)
qed


lemma included_completed:
  assumes "kodi e = Some (Dir n es)"
    and "\<not> overflows (skip_large a)"
    and "\<forall>m \<in> set (skip_report e a es). print_ok e m"
    and "dry_run a \<or> (\<forall>q. write_ok e q)"
  shows "included (make_build e a) = selection e a es"
proof (cases "dry_run a")
  case True
  with assms(3) have "\<forall>f \<in> set (kept_files es). \<forall>m \<in> set (skip_line (normcase e) a f). print_ok e m"
    by (simp add: skip_report_def)
  from run_files_dry [OF True this] show ?thesis
    by (simp add: included_make_build [OF assms(1,2)] state_of_def selection_def start_def)
next
  case False
  with assms(4) have "\<forall>f \<in> set (kept_files es). selected (normcase e) a f \<longrightarrow> write_ok e (fst f)"
    by simp
  from run_files_ok [OF False this] show ?thesis
    by (simp add: included_make_build [OF assms(1,2)] state_of_def selection_def start_def)
qed


lemma not_included:
  assumes "kodi e = Some (Dir n es)"
    and "distinct (map fst (tree_files es))"
    and "(p, t, x) \<in> set (tree_files es)"
    and "\<not> ((\<exists>d \<in> set dirs_to_keep. t = Some d) \<and> selected (normcase e) a (p, x))"
  shows "p \<notin> set (included (make_build e a))"
proof
  assume "p \<in> set (included (make_build e a))"
  from included_subset [OF assms(1) this] obtain x' where
    x': "(p, x') \<in> set (kept_files es)" "selected (normcase e) a (p, x')" by blast
  from x'(1) obtain d where d: "d \<in> set dirs_to_keep" "(p, Some d, x') \<in> set (tree_files es)"
    by (auto simp: kept_files_iff)
  from eq_key_imp_eq_value [OF assms(2) d(2) assms(3)] have "t = Some d" "x = x'" by simp_all
  with d(1) x'(2) assms(4) show False by simp
qed

lemma not_reported:
  assumes "kodi e = Some (Dir n es)"
    and "distinct (map fst (tree_files es))"
    and "(p, t, x) \<in> set (tree_files es)"
    and "\<not> ((\<exists>d \<in> set dirs_to_keep. t = Some d) \<and> x = Some sz)"
  shows "Skipped_Large p sz \<notin> set (printed (make_build e a))"
proof
  assume "Skipped_Large p sz \<in> set (printed (make_build e a))"
  from printed_skip [OF assms(1) this] have "(p, Some sz) \<in> set (kept_files es)" by simp
  then obtain d where d: "d \<in> set dirs_to_keep" "(p, Some d, Some sz) \<in> set (tree_files es)"
    by (auto simp: kept_files_iff)
  from eq_key_imp_eq_value [OF assms(2) d(2) assms(3)] have "t = Some d" "x = Some sz" by simp_all
  with d(1) assms(4) show False by simp
qed

lemma process_file_kodi: "process_file (e\<lparr>kodi := k\<rparr>) a p x s = process_file e a p x s"
  by (cases x) (simp_all add: process_file_def Let_def print_line_def)

lemma run_files_kodi: "run_files (e\<lparr>kodi := k\<rparr>) a fs s = run_files e a fs s"
  by (induction fs arbitrary: s) (auto simp: process_file_kodi split: sum.splits)

lemma print_lines_kodi: "print_lines (e\<lparr>kodi := k\<rparr>) ms s = print_lines e ms s"
  by (induction ms arbitrary: s) (simp_all add: print_line_def)

lemma after_loop_kodi: "after_loop (e\<lparr>kodi := k\<rparr>) a r = after_loop e a r"
  by (cases r) (simp_all add: after_loop_def print_lines_kodi)

lemma ending_kodi: "ending (e\<lparr>kodi := k\<rparr>) a r = ending e a r"
  by (cases r) (simp_all add: ending_def handler_def finally_close_def Let_def)

lemma pruned_pruned: "pruned (pruned es) = pruned es"
  by (induction es) (simp_all add: pruned_def)

lemma kept_files_pruned: "kept_files (pruned es) = kept_files es"
  by (simp add: kept_files_def pruned_pruned)

lemma make_build_pruned:
  assumes "kodi e = Some (Dir n es)"
  shows "make_build (e\<lparr>kodi := Some (Dir n (pruned es))\<rparr>) a = make_build e a"
proof -
  have k: "kodi (e\<lparr>kodi := Some (Dir n (pruned es))\<rparr>) = Some (Dir n (pruned es))" by simp
  show ?thesis
    by (simp add: make_build_Dir [OF k] make_build_Dir [OF assms] kept_files_pruned
        run_files_kodi after_loop_kodi ending_kodi)
qed

lemma name_without_unstatable: "name (without_unstatable c) = name c"
  by (cases c) simp_all

lemma is_Dir_without_unstatable: "is_Dir (without_unstatable c) = is_Dir c"
  by (cases c) simp_all

lemma is_Dir_can_stat: "is_Dir c \<Longrightarrow> can_stat c"
  by (cases c) simp_all

lemma filenames_without_unstatable:
  "filenames (map without_unstatable (filter can_stat cs)) = filter has_size (filenames cs)"
proof (induction cs)
  case Nil
  show ?case by simp
next
  case (Cons c cs)
  show ?case
  proof (cases c)
    case (File n x)
    with Cons.IH show ?thesis by (cases x) (simp_all add: has_size_def)
  next
    case (Dir n ds)
    with Cons.IH show ?thesis by simp
  qed
qed

lemma walk_files_concat:
  "walk_files (concat (map g cs)) = concat (map (\<lambda>c. walk_files (g c)) cs)"
  by (induction cs) (simp_all add: walk_files_Nil walk_files_append)

lemma os_walk_not_Dir: "\<not> is_Dir c \<Longrightarrow> os_walk rel c = []"
  by (cases c) simp_all

lemma children_without_unstatable:
  assumes "\<And>c. c \<in> set cs \<Longrightarrow>
     walk_files (os_walk (r c) (without_unstatable c)) = filter has_size (walk_files (os_walk (r c) c))"
  shows "concat (map (\<lambda>c. walk_files (os_walk (r c) (without_unstatable c))) (filter can_stat cs)) =
         filter has_size (concat (map (\<lambda>c. walk_files (os_walk (r c) c)) cs))"
  using assms
proof (induction cs)
  case Nil
  show ?case by simp
next
  case (Cons c cs)
  have rest: "concat (map (\<lambda>c. walk_files (os_walk (r c) (without_unstatable c))) (filter can_stat cs)) =
         filter has_size (concat (map (\<lambda>c. walk_files (os_walk (r c) c)) cs))"
    by (rule Cons.IH) (simp add: Cons.prems)
  have hd: "walk_files (os_walk (r c) (without_unstatable c)) =
            filter has_size (walk_files (os_walk (r c) c))"
    by (rule Cons.prems) simp
  show ?case
  proof (cases "can_stat c")
    case True
    with rest hd show ?thesis by simp
  next
    case False
    then have "\<not> is_Dir c" using is_Dir_can_stat by blast
    then have "os_walk (r c) c = []" by (rule os_walk_not_Dir)
    with False rest show ?thesis by (simp add: walk_files_Nil)
  qed
qed

lemma has_size_pair: "has_size (p, x) = (x \<noteq> None)"
  by (simp add: has_size_def)

lemma map_filter_has_size:
  "map (\<lambda>(f, x). (g f, x)) (filter has_size fs) =
   filter has_size (map (\<lambda>(f, x). (g f, x)) fs)"
  by (induction fs) (auto simp: has_size_pair)

lemma walk_files_without_unstatable:
  "walk_files (os_walk rel (without_unstatable d)) = filter has_size (walk_files (os_walk rel d))"
proof (induction d arbitrary: rel)
  case (File n x)
  show ?case by (simp add: walk_files_Nil)
next
  case (Dir n cs)
  have "concat (map (\<lambda>c. walk_files (os_walk (rel @ ''/'' @ name c) (without_unstatable c)))
          (filter can_stat cs)) =
        filter has_size (concat (map (\<lambda>c. walk_files (os_walk (rel @ ''/'' @ name c) c)) cs))"
    by (rule children_without_unstatable) (rule Dir.IH)
  then show ?case
    by (simp add: walk_files_Cons walk_files_concat filenames_without_unstatable
        map_filter_has_size comp_def name_without_unstatable)
qed

lemma pruned_without_unstatable:
  "pruned (map without_unstatable (filter can_stat es)) = map without_unstatable (pruned es)"
proof (induction es)
  case Nil
  show ?case by (simp add: pruned_def)
next
  case (Cons c es)
  then show ?case
    by (cases "is_Dir c")
       (auto simp: pruned_def is_Dir_can_stat is_Dir_without_unstatable name_without_unstatable)
qed

lemma kept_files_without_unstatable:
  "kept_files (map without_unstatable (filter can_stat es)) = filter has_size (kept_files es)"
proof -
  have "kept_files (map without_unstatable (filter can_stat es)) =
        concat (map (\<lambda>d. walk_files (os_walk (name d) (without_unstatable d))) (pruned es))"
    by (simp add: kept_files_def pruned_without_unstatable walk_files_concat comp_def
        name_without_unstatable)
  also have "\<dots> = concat (map (\<lambda>d. filter has_size (walk_files (os_walk (name d) d))) (pruned es))"
    by (simp add: walk_files_without_unstatable)
  also have "\<dots> = filter has_size (kept_files es)"
    by (simp add: kept_files_def walk_files_concat filter_concat comp_def)
  finally show ?thesis .
qed

lemma process_file_None: "process_file e a p None s = Inr s"
  by (simp add: process_file_def)

lemma run_files_has_size: "run_files e a (filter has_size fs) s = run_files e a fs s"
proof (induction fs arbitrary: s)
  case Nil
  show ?case by simp
next
  case (Cons f fs)
  obtain p x where f: "f = (p, x)" by (cases f)
  show ?case
    by (cases x) (auto simp: f has_size_pair process_file_None Cons.IH split: sum.splits)
qed

lemma make_build_without_unstatable:
  assumes "kodi e = Some (Dir n es)"
  shows "make_build (e\<lparr>kodi := Some (without_unstatable (Dir n es))\<rparr>) a = make_build e a"
proof -
  have k: "kodi (e\<lparr>kodi := Some (Dir n (map without_unstatable (filter can_stat es)))\<rparr>) =
           Some (Dir n (map without_unstatable (filter can_stat es)))" by simp
  show ?thesis
    by (simp add: make_build_Dir [OF k] make_build_Dir [OF assms]
        kept_files_without_unstatable run_files_has_size run_files_kodi after_loop_kodi ending_kodi)
qed

lemma selected_dry_run: "selected nc (a\<lparr>dry_run := b\<rparr>) = selected nc a"
proof
  fix f
  show "selected nc (a\<lparr>dry_run := b\<rparr>) f = selected nc a f"
    by (cases "snd f") (simp_all add: selected_def)
qed

lemma selection_dry_run: "selection e (a\<lparr>dry_run := b\<rparr>) es = selection e a es"
  by (simp add: selection_def selected_dry_run)

lemma selection_normcase: "normcase e' = normcase e \<Longrightarrow> selection e' a es = selection e a es"
  by (simp add: selection_def)

lemma listed_skip_line: "concat (map listed (skip_line nc a f)) = []"
  by (cases "snd f") (simp_all add: skip_line_def)

lemma listed_skip_lines: "concat (map listed (concat (map (skip_line nc a) fs))) = []"
  by (induction fs) (simp_all add: listed_skip_line)

lemma listed_skip_report: "concat (map listed (skip_report e a es)) = []"
proof (cases "dry_run a")
  case True
  then show ?thesis by (simp only: skip_report_def if_True listed_skip_lines)
next
  case False
  then show ?thesis by (simp add: skip_report_def)
qed

lemma listed_Would_include: "concat (map (listed \<circ> Would_include) ps) = ps"
  by (induction ps) simp_all

lemma make_build_dry:
  assumes "kodi e = Some (Dir n es)" and "dry_run a" and "\<not> overflows (skip_large a)"
    and "\<forall>m. print_ok e m"
  shows "make_build e a =
     \<lparr>status = Returned,
      printed = stdout (start a) @ skip_report e a es @
                final_output a \<lparr>included_files = selection e a es, zip_file = None, stdout = []\<rparr>,
      included = selection e a es,
      out_dir_made = True,
      archive = None\<rparr>"
proof -
  define s1 where "s1 = \<lparr>included_files = selection e a es, zip_file = None,
    stdout = stdout (start a) @ skip_report e a es\<rparr>"
  from assms(4)
  have "\<forall>f \<in> set (kept_files es). \<forall>m \<in> set (skip_line (normcase e) a f). print_ok e m"
    by simp
  from run_files_dry [OF assms(2) this, of "start a"] assms(2)
  have r: "run_files e a (kept_files es) (start a) = Inr s1"
    by (simp add: s1_def selection_def skip_report_def start_def)
  have "\<forall>m \<in> set (final_output a s1). print_ok e m" using assms(4) by simp
  then have p: "print_lines e (final_output a s1) s1 =
      Inr (s1\<lparr>stdout := stdout s1 @ final_output a s1\<rparr>)"
    by (rule print_lines_ok)
  have f: "final_output a s1 =
      final_output a \<lparr>included_files = selection e a es, zip_file = None, stdout = []\<rparr>"
    by (simp add: final_output_def s1_def)
  have "make_build e a = finally_close e (s1\<lparr>stdout := stdout s1 @ final_output a s1\<rparr>)"
    by (simp add: make_build_Dir [OF assms(1)] assms(3) r after_loop_def p ending_def)
  also have "\<dots> = \<lparr>status = Returned,
      printed = stdout (start a) @ skip_report e a es @
                final_output a \<lparr>included_files = selection e a es, zip_file = None, stdout = []\<rparr>,
      included = selection e a es,
      out_dir_made = True,
      archive = None\<rparr>"
    unfolding f by (simp add: finally_close_def returned_def s1_def)
  finally show ?thesis .
qed

lemma printed_skip_report:
  assumes "kodi e = Some (Dir n es)" and "\<not> overflows (skip_large a)"
    and "\<forall>q sz. print_ok e (Skipped_Large q sz)"
  shows "set (skip_report e a es) \<subseteq> set (printed (make_build e a))"
proof (cases "dry_run a")
  case False
  then show ?thesis by (simp add: skip_report_def)
next
  case True
  let ?r = "run_files e a (kept_files es) (start a)"
  from assms(3)
  have "\<forall>f \<in> set (kept_files es). \<forall>m \<in> set (skip_line (normcase e) a f). print_ok e m"
    by (auto simp: skip_line_set)
  from run_files_dry [OF True this, of "start a"]
  have "set (skip_report e a es) \<subseteq> set (stdout (state_of ?r))"
    by (simp add: state_of_def skip_report_def True)
  also have "\<dots> \<subseteq> set (stdout (state_of (after_loop e a ?r)))"
    by (rule stdout_after_loop_mono)
  also have "\<dots> \<subseteq> set (printed (ending e a (after_loop e a ?r)))"
    by (rule printed_ending_mono)
  finally show ?thesis by (simp add: make_build_Dir [OF assms(1)] assms(2))
qed

lemma size_limit_no_overflow:
  fixes sz :: "64 word"
  assumes "0 < n" and "n < uint sz"
  shows "\<not> overflows n"
proof -
  have "uint sz < 2 ^ 64" using uint_lt2p [of sz] by simp
  with assms have "\<bar>n\<bar> < 2 ^ 64" by simp
  moreover have "(2::int) ^ 64 \<le> 2 ^ 1044 - 2 ^ 990" by simp
  ultimately show ?thesis by (simp add: overflows_def)
qed

lemmas run_defs =
  make_build_def try_body_def walk_def pruned_def dirs_to_keep_def dirnames_def
  process_file_def print_line_def should_exclude_def EXCLUDE_PATTERNS_def fnmatch_def
  final_output_def handler_def finally_close_def raised_def returned_def overflows_def
  example_entries_def example_env_def example_args_def preview_args_def zero_args_def
  negative_args_def overflow_args_def blocked_env_def unreadable_env_def full_disk_env_def
  unprintable_env_def archived_env_def






lemma example_tree_files:
  "tree_files example_entries =
     [(''kodi.log'', None, Some 10),
      (''userdata/keep.txt'', Some ''userdata'', Some 10),
      (''userdata/huge.bin'', Some ''userdata'', Some 200),
      (''userdata/locked.xml'', Some ''userdata'', None),
      (''userdata/Thumbnails/x.png'', Some ''userdata'', Some 10),
      (''temp/secret.txt'', Some ''temp'', Some 10),
      (''addons/skin.one/addon.xml'', Some ''addons'', Some 30)]"
  by (simp add: tree_files_def example_entries_def walk_files_def dirnames_def)

lemma example_distinct: "distinct (map fst (tree_files example_entries))"
  by (simp add: example_tree_files)

lemma example_kodi: "kodi example_env = Some (Dir ''Kodi'' example_entries)"
  by (simp add: example_env_def)

lemma example_not_excluded:
  "\<not> should_exclude (\<lambda>s. s) ''userdata/keep.txt''"
  "\<not> should_exclude (\<lambda>s. s) ''userdata/huge.bin''"
  "\<not> should_exclude (\<lambda>s. s) ''addons/skin.one/addon.xml''"
  by (simp_all add: should_exclude_def EXCLUDE_PATTERNS_def fnmatch_def)

lemma example_runs:
  "make_build example_env example_args =
     \<lparr>status = Returned,
      printed = [Separator, Kodi_source, Output_path False, Max_file_size 100, Separator,
                 Separator, Total_files 2, Successfully_created],
      included = [''userdata/keep.txt'', ''addons/skin.one/addon.xml''],
      out_dir_made = True,
      archive = Some [''userdata/keep.txt'', ''addons/skin.one/addon.xml'']\<rparr>"
  "make_build example_env preview_args =
     \<lparr>status = Returned,
      printed = [Separator, Kodi_source, Output_path True, Max_file_size 100, Separator,
                 Skipped_Large ''userdata/huge.bin'' 200,
                 Separator, Total_files 2, Dry_run_header,
                 Would_include ''userdata/keep.txt'', Would_include ''addons/skin.one/addon.xml'',
                 Dry_run_complete],
      included = [''userdata/keep.txt'', ''addons/skin.one/addon.xml''],
      out_dir_made = True,
      archive = None\<rparr>"
  by (simp_all add: run_defs)

lemma blocked_runs:
  "make_build blocked_env example_args =
     \<lparr>status = Returned,
      printed = [Separator, Kodi_source, Output_path False, Max_file_size 100, Separator,
                 Unexpected_error, Deleting_incomplete],
      included = [''userdata/keep.txt''],
      out_dir_made = True,
      archive = None\<rparr>"
  "make_build blocked_env zero_args =
     \<lparr>status = Returned,
      printed = [Separator, Kodi_source, Output_path False, Max_file_size 0, Separator,
                 Unexpected_error, Deleting_incomplete],
      included = [''userdata/keep.txt''],
      out_dir_made = True,
      archive = None\<rparr>"
  "make_build blocked_env negative_args =
     \<lparr>status = Returned,
      printed = [Separator, Kodi_source, Output_path False, Max_file_size (- 1), Separator,
                 Unexpected_error, Deleting_incomplete],
      included = [''userdata/keep.txt''],
      out_dir_made = True,
      archive = None\<rparr>"
  "make_build blocked_env preview_args = make_build example_env preview_args"
  by (simp_all add: run_defs)

lemma unprintable_run:
  "make_build unprintable_env preview_args =
     \<lparr>status = Returned,
      printed = [Separator, Kodi_source, Output_path True, Max_file_size 100, Separator,
                 Unexpected_error],
      included = [''userdata/keep.txt''],
      out_dir_made = True,
      archive = None\<rparr>"
  by (simp add: run_defs)


lemma archived_run:
  "included (make_build archived_env example_args) =
     [''userdata/keep.txt'', ''userdata/GusFace_Build.zip'', ''addons/skin.one/addon.xml'']"
  by (simp add: run_defs)

lemma unreadable_runs:
  "make_build unreadable_env example_args =
     \<lparr>status = Returned,
      printed = [Separator, Kodi_source, Output_path False, Max_file_size 100, Separator,
                 Unexpected_error, Deleting_incomplete],
      included = [''userdata/keep.txt'', ''addons/skin.one/addon.xml''],
      out_dir_made = True,
      archive = None\<rparr>"
  "make_build full_disk_env example_args =
     \<lparr>status = Raised Close_raised,
      printed = [Separator, Kodi_source, Output_path False, Max_file_size 100, Separator,
                 Unexpected_error],
      included = [''userdata/keep.txt'', ''addons/skin.one/addon.xml''],
      out_dir_made = True,
      archive = Some [''userdata/keep.txt'']\<rparr>"
  by (simp_all add: run_defs)

section \<open>The claims\<close>

subsection \<open>C1: which files are selected\<close>




subsection \<open>C2: files over the size limit\<close>

text \<open>
  C2 as written fails. In a normal run a file over the limit is dropped and nothing
  records it: the only trace the script leaves is the \<open>[Skipped Large]\<close> line, printed
  under \<open>if args.dry_run\<close>. A limit below zero, which is not zero, skips nothing. And
  in a dry run the line is missing when it cannot be printed. All at the small folder:
  \<open>userdata/huge.bin\<close> has 200 bytes.
\<close>

theorem oversized_unrecorded_counterexample:
  "(''userdata/huge.bin'', Some ''userdata'', Some 200) \<in> set (tree_files example_entries) \<and>
   \<not> should_exclude (normcase example_env) ''userdata/huge.bin'' \<and>
   make_build example_env \<lparr>dry_run = False, skip_large = 100\<rparr> =
     \<lparr>status = Returned,
      printed = [Separator, Kodi_source, Output_path False, Max_file_size 100, Separator,
                 Separator, Total_files 2, Successfully_created],
      included = [''userdata/keep.txt'', ''addons/skin.one/addon.xml''],
      out_dir_made = True,
      archive = Some [''userdata/keep.txt'', ''addons/skin.one/addon.xml'']\<rparr> \<and>
   ''userdata/huge.bin'' \<in> set (included (make_build example_env \<lparr>dry_run = True, skip_large = - 1\<rparr>)) \<and>
   Skipped_Large ''userdata/huge.bin'' 200 \<notin> set (printed (make_build unprintable_env preview_args))"
proof -
  have 1: "(''userdata/huge.bin'', Some ''userdata'', Some 200) \<in> set (tree_files example_entries)"
    by (simp add: example_tree_files)
  have 2: "\<not> should_exclude (normcase example_env) ''userdata/huge.bin''"
    by (simp add: example_env_def example_not_excluded)
  have 3: "make_build example_env \<lparr>dry_run = False, skip_large = 100\<rparr> =
     \<lparr>status = Returned,
      printed = [Separator, Kodi_source, Output_path False, Max_file_size 100, Separator,
                 Separator, Total_files 2, Successfully_created],
      included = [''userdata/keep.txt'', ''addons/skin.one/addon.xml''],
      out_dir_made = True,
      archive = Some [''userdata/keep.txt'', ''addons/skin.one/addon.xml'']\<rparr>"
    using example_runs(1) by (simp add: example_args_def)
  have 4: "''userdata/huge.bin'' \<in>
      set (included (make_build example_env \<lparr>dry_run = True, skip_large = - 1\<rparr>))"
    by (simp add: run_defs)
  have 5: "Skipped_Large ''userdata/huge.bin'' 200 \<notin>
      set (printed (make_build unprintable_env preview_args))"
    by (simp add: unprintable_run)
  show ?thesis by (rule conjI [OF 1 conjI [OF 2 conjI [OF 3 conjI [OF 4 5]]]])
qed

text \<open>
  C2, amended. With a positive \<open>skip_large\<close>, a file below a kept top-level directory
  that is not excluded and whose size is above \<open>skip_large\<close> is never in
  \<open>included_files\<close>, and a dry run in which the \<open>[Skipped Large]\<close> lines can be printed
  prints such a line with its relative path and its size.
\<close>

theorem oversized_skipped:
  assumes "kodi e = Some (Dir n es)"
    and "distinct (map fst (tree_files es))"
    and "(p, Some d, Some sz) \<in> set (tree_files es)"
    and "d \<in> set dirs_to_keep"
    and "\<not> should_exclude (normcase e) p"
    and "0 < skip_large a"
    and "skip_large a < uint sz"
  shows "p \<notin> set (included (make_build e a)) \<and>
         (dry_run a \<and> (\<forall>q m. print_ok e (Skipped_Large q m)) \<longrightarrow>
            Skipped_Large p sz \<in> set (printed (make_build e a)))"
proof -
  from assms(6,7) have "\<not> selected (normcase e) a (p, Some sz)" by (simp add: selected_def)
  then have 1: "p \<notin> set (included (make_build e a))"
    using not_included [OF assms(1,2,3)] by simp
  have 2: "Skipped_Large p sz \<in> set (printed (make_build e a))"
    if dry: "dry_run a" and pr: "\<forall>q m. print_ok e (Skipped_Large q m)"
  proof -
    note no = size_limit_no_overflow [OF assms(6,7)]
    from assms(3,4) have "(p, Some sz) \<in> set (kept_files es)" by (auto simp: kept_files_iff)
    with dry assms(5,6,7) have "Skipped_Large p sz \<in> set (skip_report e a es)"
      by (simp add: in_skip_report)
    with printed_skip_report [OF assms(1) no pr] show ?thesis by blast
  qed
  from 1 2 show ?thesis by simp
qed

theorem oversized_skipped_witness:
  "kodi example_env = Some (Dir ''Kodi'' example_entries) \<and>
   distinct (map fst (tree_files example_entries)) \<and>
   (''userdata/huge.bin'', Some ''userdata'', Some 200) \<in> set (tree_files example_entries) \<and>
   ''userdata'' \<in> set dirs_to_keep \<and>
   \<not> should_exclude (normcase example_env) ''userdata/huge.bin'' \<and>
   0 < skip_large preview_args \<and> skip_large preview_args < uint (200 :: 64 word) \<and>
   dry_run preview_args \<and> (\<forall>q m. print_ok example_env (Skipped_Large q m)) \<and>
   ''userdata/huge.bin'' \<notin> set (included (make_build example_env preview_args)) \<and>
   Skipped_Large ''userdata/huge.bin'' 200 \<in> set (printed (make_build example_env preview_args))"
proof -
  have h3: "(''userdata/huge.bin'', Some ''userdata'', Some 200) \<in> set (tree_files example_entries)"
    by (simp add: example_tree_files)
  have h4: "''userdata'' \<in> set dirs_to_keep" by (simp add: dirs_to_keep_def)
  have h5: "\<not> should_exclude (normcase example_env) ''userdata/huge.bin''"
    by (simp add: example_env_def example_not_excluded)
  have h6: "0 < skip_large preview_args" by (simp add: preview_args_def)
  have h7: "skip_large preview_args < uint (200 :: 64 word)" by (simp add: preview_args_def)
  have d: "dry_run preview_args" by (simp add: preview_args_def)
  have pr: "\<forall>q m. print_ok example_env (Skipped_Large q m)" by (simp add: example_env_def)
  from oversized_skipped [OF example_kodi example_distinct h3 h4 h5 h6 h7] d pr
  show ?thesis using example_kodi example_distinct h3 h4 h5 h6 h7 by simp
qed

subsection \<open>C3: a failing archive write\<close>

text \<open>
  C3. The script does not do what the claim asks. With the archive write of
  \<open>addons/skin.one/addon.xml\<close> raising in a normal run on the small folder, the handler
  prints the error and removes the archive, and \<open>make_build\<close> returns as it does after
  a successful run: the failure is not passed on, where the other failure of the same
  function leaves with \<open>sys.exit(1)\<close>. When \<open>zip_file.close()\<close> in the handler raises
  too, as it does on a full disk, \<open>unlink\<close> is not reached and the incomplete archive
  stays.
\<close>

theorem write_failure_not_surfaced:
  "\<not> write_ok unreadable_env ''addons/skin.one/addon.xml'' \<and>
   make_build unreadable_env example_args =
     \<lparr>status = Returned,
      printed = [Separator, Kodi_source, Output_path False, Max_file_size 100, Separator,
                 Unexpected_error, Deleting_incomplete],
      included = [''userdata/keep.txt'', ''addons/skin.one/addon.xml''],
      out_dir_made = True,
      archive = None\<rparr> \<and>
   status (make_build unreadable_env example_args) = status (make_build example_env example_args) \<and>
   \<not> write_ok full_disk_env ''addons/skin.one/addon.xml'' \<and> \<not> close_ok full_disk_env \<and>
   make_build full_disk_env example_args =
     \<lparr>status = Raised Close_raised,
      printed = [Separator, Kodi_source, Output_path False, Max_file_size 100, Separator,
                 Unexpected_error],
      included = [''userdata/keep.txt'', ''addons/skin.one/addon.xml''],
      out_dir_made = True,
      archive = Some [''userdata/keep.txt'']\<rparr>"
  by (simp add: unreadable_runs example_runs) (simp add: unreadable_env_def full_disk_env_def)

subsection \<open>C4: pruning at the top level\<close>

text \<open>
  C4. In a folder whose files have distinct relative paths, a file directly in the Kodi
  folder, or below a top-level directory whose name is not in \<open>dirs_to_keep\<close>, is never
  in \<open>included_files\<close> and never in a \<open>[Skipped Large]\<close> line, whatever the size limit
  and the mode are. No rule is applied to it: the run is the same as on the folder that
  has only the kept top-level directories.
\<close>

theorem pruning_absolute:
  assumes "kodi e = Some (Dir n es)"
    and "distinct (map fst (tree_files es))"
    and "(p, t, x) \<in> set (tree_files es)"
    and "t \<notin> Some ` set dirs_to_keep"
  shows "p \<notin> set (included (make_build e a)) \<and>
         (\<forall>sz. Skipped_Large p sz \<notin> set (printed (make_build e a))) \<and>
         make_build (e\<lparr>kodi := Some (Dir n (pruned es))\<rparr>) a = make_build e a"
proof -
  from assms(4) have t: "\<not> (\<exists>d \<in> set dirs_to_keep. t = Some d)" by auto
  have 1: "p \<notin> set (included (make_build e a))"
    using not_included [OF assms(1,2,3)] t by simp
  have 2: "\<forall>sz. Skipped_Large p sz \<notin> set (printed (make_build e a))"
    using not_reported [OF assms(1,2,3)] t by simp
  from 1 2 make_build_pruned [OF assms(1)] show ?thesis by simp
qed

theorem pruning_absolute_witness:
  "kodi example_env = Some (Dir ''Kodi'' example_entries) \<and>
   distinct (map fst (tree_files example_entries)) \<and>
   (''temp/secret.txt'', Some ''temp'', Some 10) \<in> set (tree_files example_entries) \<and>
   Some ''temp'' \<notin> Some ` set dirs_to_keep \<and>
   ''temp/secret.txt'' \<notin> set (included (make_build example_env example_args)) \<and>
   (\<forall>sz. Skipped_Large ''temp/secret.txt'' sz \<notin> set (printed (make_build example_env example_args))) \<and>
   make_build (example_env\<lparr>kodi := Some (Dir ''Kodi'' (pruned example_entries))\<rparr>) example_args =
     make_build example_env example_args"
proof -
  have h3: "(''temp/secret.txt'', Some ''temp'', Some 10) \<in> set (tree_files example_entries)"
    by (simp add: example_tree_files)
  have h4: "Some ''temp'' \<notin> Some ` set dirs_to_keep" by (simp add: dirs_to_keep_def)
  from pruning_absolute [OF example_kodi example_distinct h3 h4, of example_args]
  show ?thesis using example_kodi example_distinct h3 h4 by simp
qed

subsection \<open>C5: excluded paths\<close>

text \<open>
  C5. A relative path that \<open>fnmatch\<close> matches against some pattern of
  \<open>EXCLUDE_PATTERNS\<close> is never in \<open>included_files\<close>, whatever the folder, the size
  limit and the mode are.
\<close>

theorem excluded_never_included:
  assumes "pat \<in> set EXCLUDE_PATTERNS" and "fnmatch (normcase e) p pat"
  shows "p \<notin> set (included (make_build e a))"
proof
  assume "p \<in> set (included (make_build e a))"
  from included_not_excluded [OF this] assms show False
    by (auto simp: should_exclude_def any_pattern_iff)
qed

theorem excluded_never_included_witness:
  "''userdata/Thumbnails/*'' \<in> set EXCLUDE_PATTERNS \<and>
   fnmatch (normcase example_env) ''userdata/Thumbnails/x.png'' ''userdata/Thumbnails/*'' \<and>
   ''userdata/Thumbnails/x.png'' \<notin> set (included (make_build example_env example_args))"
proof -
  have h1: "''userdata/Thumbnails/*'' \<in> set EXCLUDE_PATTERNS"
    by (simp add: EXCLUDE_PATTERNS_def)
  have h2: "fnmatch (normcase example_env) ''userdata/Thumbnails/x.png'' ''userdata/Thumbnails/*''"
    by (simp add: example_env_def fnmatch_def)
  from excluded_never_included [OF h1 h2] h1 h2 show ?thesis by simp
qed

subsection \<open>C6: the Kodi path is not a directory\<close>

text \<open>
  C6. If the Kodi path is not an existing directory, the call prints its two error lines
  and leaves with \<open>sys.exit(1)\<close>: the output directory has not been made, no archive
  has been opened, and nothing has been selected.
\<close>

theorem path_not_found:
  assumes "\<not> is_dir (kodi e)"
  shows "make_build e a =
     \<lparr>status = SystemExit 1, printed = [Error_path_not_found, Please_provide_path],
      included = [], out_dir_made = False, archive = None\<rparr>"
proof (cases "kodi e")
  case None
  then show ?thesis by (simp add: make_build_def)
next
  case (Some d)
  with assms show ?thesis by (cases d) (simp_all add: make_build_def)
qed

theorem path_not_found_witness:
  "\<not> is_dir (kodi missing_env) \<and>
   make_build missing_env example_args =
     \<lparr>status = SystemExit 1, printed = [Error_path_not_found, Please_provide_path],
      included = [], out_dir_made = False, archive = None\<rparr>"
proof -
  have h: "\<not> is_dir (kodi missing_env)" by (simp add: missing_env_def)
  from path_not_found [OF h] h show ?thesis by simp
qed

subsection \<open>C7: the size limit 0\<close>




subsection \<open>C8: the dry run\<close>

text \<open>
  C8 as written fails. On the small folder with the archive write of
  \<open>userdata/keep.txt\<close> raising, the dry run selects two files and the normal run one.
  With \<open>--out\<close> at \<open>userdata\<close> the normal run has opened its archive there before the
  walk starts and selects it, and the dry run does not. And the dry run does more than
  present the list: it makes the output directory.
\<close>

theorem preview_differs_counterexample:
  "included (make_build blocked_env preview_args) =
     [''userdata/keep.txt'', ''addons/skin.one/addon.xml''] \<and>
   included (make_build blocked_env example_args) = [''userdata/keep.txt''] \<and>
   kodi archived_env =
     Some (Dir ''Kodi''
       (opened_in ''userdata'' (File ''GusFace_Build.zip'' (Some 0)) example_entries)) \<and>
   ''userdata/GusFace_Build.zip'' \<in> set (included (make_build archived_env example_args)) \<and>
   ''userdata/GusFace_Build.zip'' \<notin> set (included (make_build example_env preview_args)) \<and>
   out_dir_made (make_build example_env preview_args)"
  by (simp add: blocked_runs example_runs archived_run) (simp add: archived_env_def)

text \<open>
  C8, amended. Let the walk of the dry run (environment \<open>e\<close>) and the walk of the normal
  run (environment \<open>e'\<close>) find the same Kodi folder, as they do when \<open>--out\<close> lies
  outside of it, under the same \<open>normcase\<close>; let no archive write of the normal run
  raise and every line of the dry run be printed. Then both runs end with the same
  \<open>included_files\<close>. The dry run leaves no file at \<open>zip_path\<close>, and the paths it lists
  are its \<open>included_files\<close>; it makes the output directory whenever the Kodi path is a
  directory.
\<close>

theorem preview_same_selection:
  assumes "kodi e' = kodi e"
    and "normcase e' = normcase e"
    and "\<forall>q. write_ok e' q"
    and "\<forall>m. print_ok e m"
  shows "included (make_build e (a\<lparr>dry_run := True\<rparr>)) =
           included (make_build e' (a\<lparr>dry_run := False\<rparr>)) \<and>
         archive (make_build e (a\<lparr>dry_run := True\<rparr>)) = None \<and>
         concat (map listed (printed (make_build e (a\<lparr>dry_run := True\<rparr>)))) =
           included (make_build e (a\<lparr>dry_run := True\<rparr>)) \<and>
         out_dir_made (make_build e (a\<lparr>dry_run := True\<rparr>)) = is_dir (kodi e)"
proof (cases "kodi e" rule: is_dir_cases)
  case 1
  moreover from 1 assms(1) have "\<not> is_dir (kodi e')" by simp
  ultimately show ?thesis by (simp add: make_build_not_dir)
next
  case (2 n es)
  with assms(1) have k': "kodi e' = Some (Dir n es)" by simp
  show ?thesis
  proof (cases "overflows (skip_large a)")
    case True
    then show ?thesis by (simp add: make_build_Dir [OF 2] make_build_Dir [OF k'] 2)
  next
    case False
    then have no: "\<not> overflows (skip_large (a\<lparr>dry_run := True\<rparr>))"
      and no': "\<not> overflows (skip_large (a\<lparr>dry_run := False\<rparr>))" by simp_all
    have d: "dry_run (a\<lparr>dry_run := True\<rparr>)" by simp
    have pr': "\<forall>m \<in> set (skip_report e' (a\<lparr>dry_run := False\<rparr>) es). print_ok e' m"
      by (simp add: skip_report_def)
    have w': "dry_run (a\<lparr>dry_run := False\<rparr>) \<or> (\<forall>q. write_ok e' q)" using assms(3) by simp
    have "included (make_build e' (a\<lparr>dry_run := False\<rparr>)) = selection e a es"
      by (simp add: included_completed [OF k' no' pr' w'] selection_dry_run
          selection_normcase [OF assms(2)])
    then show ?thesis
      by (simp add: make_build_dry [OF 2 d no assms(4)] selection_dry_run final_output_def
          start_def listed_skip_report listed_Would_include 2)
  qed
qed

theorem preview_same_selection_witness:
  "kodi example_env = kodi example_env \<and>
   normcase example_env = normcase example_env \<and>
   (\<forall>q. write_ok example_env q) \<and>
   (\<forall>m. print_ok example_env m) \<and>
   included (make_build example_env (example_args\<lparr>dry_run := True\<rparr>)) =
     included (make_build example_env (example_args\<lparr>dry_run := False\<rparr>)) \<and>
   archive (make_build example_env (example_args\<lparr>dry_run := True\<rparr>)) = None \<and>
   concat (map listed (printed (make_build example_env (example_args\<lparr>dry_run := True\<rparr>)))) =
     included (make_build example_env (example_args\<lparr>dry_run := True\<rparr>)) \<and>
   out_dir_made (make_build example_env (example_args\<lparr>dry_run := True\<rparr>)) =
     is_dir (kodi example_env)"
proof -
  have h3: "\<forall>q. write_ok example_env q" by (simp add: example_env_def)
  have h4: "\<forall>m. print_ok example_env m" by (simp add: example_env_def)
  from preview_same_selection [OF refl refl h3 h4, of example_args] h3 h4
  show ?thesis by simp
qed

subsection \<open>C9: files that cannot be stat-ed\<close>

text \<open>
  C9. In a folder whose files have distinct relative paths, a file for which \<open>stat\<close>
  raises \<open>OSError\<close> is neither in \<open>included_files\<close> nor in a \<open>[Skipped Large]\<close> line.
  It does not stop the run and changes nothing for the other files: the run is the run
  on the folder without such files, with the same end, the same lines and the same
  archive.
\<close>

theorem unstatable_dropped:
  assumes "kodi e = Some (Dir n es)"
    and "distinct (map fst (tree_files es))"
    and "(p, t, None) \<in> set (tree_files es)"
  shows "p \<notin> set (included (make_build e a)) \<and>
         (\<forall>sz. Skipped_Large p sz \<notin> set (printed (make_build e a))) \<and>
         make_build (e\<lparr>kodi := Some (without_unstatable (Dir n es))\<rparr>) a = make_build e a"
proof -
  have 1: "p \<notin> set (included (make_build e a))"
    using not_included [OF assms(1,2,3)] by (simp add: selected_def)
  have 2: "\<forall>sz. Skipped_Large p sz \<notin> set (printed (make_build e a))"
    using not_reported [OF assms(1,2,3)] by simp
  from 1 2 make_build_without_unstatable [OF assms(1)] show ?thesis by simp
qed

theorem unstatable_dropped_witness:
  "kodi example_env = Some (Dir ''Kodi'' example_entries) \<and>
   distinct (map fst (tree_files example_entries)) \<and>
   (''userdata/locked.xml'', Some ''userdata'', None) \<in> set (tree_files example_entries) \<and>
   ''userdata/locked.xml'' \<notin> set (included (make_build example_env example_args)) \<and>
   (\<forall>sz. Skipped_Large ''userdata/locked.xml'' sz \<notin> set (printed (make_build example_env example_args))) \<and>
   make_build (example_env\<lparr>kodi := Some (without_unstatable (Dir ''Kodi'' example_entries))\<rparr>) example_args =
     make_build example_env example_args"
proof -
  have h3: "(''userdata/locked.xml'', Some ''userdata'', None) \<in> set (tree_files example_entries)"
    by (simp add: example_tree_files)
  from unstatable_dropped [OF example_kodi example_distinct h3, of example_args]
  show ?thesis using example_kodi example_distinct h3 by simp
qed

subsection \<open>C10: size limits of zero and below\<close>




end
